theory Spec2Isabelle
  imports Main "HOL-Library.Word"
begin

section \<open>The integrity comparator of verify-cef-integrity.js\<close>

text \<open>
  The script compares a re-signed application bundle with the original one. The functions
  embedded here are \<open>isMachO\<close>, \<open>hashFile\<close>, \<open>hashMachOSegments\<close>, \<open>compareFiles\<close>,
  \<open>shouldSkipFile\<close>, \<open>getAllFiles\<close>, \<open>compareApps\<close> and the verdict computed at the end of
  \<open>main\<close>. Everything the script obtains from outside (file contents, directory listings,
  the output of \<open>otool -l\<close>, the SHA-256 function) is a field of the record \<open>world\<close>.
\<close>

subsection \<open>Data\<close>

type_synonym byte = "8 word"

text \<open>A JavaScript number that holds an integer, or \<open>NaN\<close> (\<open>None\<close>).\<close>

type_synonym number = "int option"

text \<open>The objects pushed by \<open>getAllFiles\<close>.\<close>

record FileEntry =
  absolutePath :: string
  relativePath :: string

text \<open>
  What \<open>fs.readdirSync(dir, { withFileTypes: true })\<close> reports for one entry: a regular
  file, a directory (with its own entries), or anything else (a symbolic link, a socket).
\<close>

datatype dirent = RegularFile | Directory "(string \<times> dirent) list" | OtherEntry

text \<open>
  The capture groups of one match of \<open>sectionRegex\<close> in the output of \<open>otool -l\<close>:
  \<open>sectname (\S+)\s+segname (\S+)\s+addr \S+\s+size (\S+)\s+offset (\d+)\<close>.
\<close>

record sectionMatch =
  sectname :: string
  segname :: string
  sizeHex :: string
  offsetStr :: string

text \<open>The objects pushed onto \<open>sections\<close> in \<open>hashMachOSegments\<close>.\<close>

record machoSection =
  sec_name :: string
  sec_offset :: number
  sec_size :: number

text \<open>The three strings returned by \<open>compareFiles\<close>.\<close>

datatype comparison = Match | SignatureOnly | Modified

text \<open>The object \<open>result\<close> built by \<open>compareApps\<close>.\<close>

record report =
  matched :: nat
  modified :: "string list"
  signatureOnly :: "string list"
  missingInLocal :: "string list"
  missingInOriginal :: "string list"

text \<open>
  Exceptions. \<open>hashMachOSegments\<close> wraps whatever is thrown inside it as
  \<open>Failed to hash segments: ...\<close>; the cause is kept.
\<close>

datatype cause =
    OtoolFailed
  | NoSectionsFound
  | OpenFailed
  | AllocFailed
  | ReadFailed

datatype error =
    FailedToHashSegments cause
  | ReadFileFailed string
  | TypeError

text \<open>
  The environment of one run:
  \<^item> \<open>sha256\<close>: \<open>crypto.createHash('sha256').update(content).digest('hex')\<close>;
  \<^item> \<open>files\<close>: the content of every regular file that can be opened for reading, by
    absolute path;
  \<^item> \<open>readdir\<close>: the directory tree found under a path;
  \<^item> \<open>otool\<close>: the matches of \<open>sectionRegex\<close> in the output of \<open>otool -l\<close> on a path, in
    order, or \<open>None\<close> when \<open>execSync\<close> throws.
\<close>

record world =
  sha256 :: "byte list \<Rightarrow> string"
  files :: "string \<Rightarrow> byte list option"
  readdir :: "string \<Rightarrow> (string \<times> dirent) list"
  otool :: "string \<Rightarrow> sectionMatch list option"

subsection \<open>Buffers and reads\<close>

text \<open>
  \<open>Buffer.alloc(size)\<close> gives \<open>size\<close> zero bytes and throws a \<open>RangeError\<close> when \<open>size\<close> is
  \<open>NaN\<close>, negative or larger than \<open>buffer.kMaxLength\<close>. That limit depends on the release
  of Node.js (\<open>2^31 - 1\<close>, \<open>2^32 - 1\<close>, \<open>2^32\<close> or \<open>2^53 - 1\<close> on 64-bit machines); the
  smallest of them is taken, so a size the model accepts is accepted by every release.
  A larger size fails in every release, in \<open>Buffer.alloc\<close> or in the check that
  \<open>fs.readSync\<close> makes of its length (\<open>readSyncArgs\<close> below).
\<close>

definition kMaxLength :: int where
  "kMaxLength = 2 ^ 31 - 1"

definition Buffer_alloc :: "number \<Rightarrow> byte list option" where
  "Buffer_alloc sz =
     (case sz of
        None \<Rightarrow> None
      | Some n \<Rightarrow> if 0 \<le> n \<and> n \<le> kMaxLength then Some (replicate (nat n) 0) else None)"

text \<open>
  \<open>fs.readSync(fd, buffer, 0, length, position)\<close> on a file of content \<open>content\<close>: the bytes
  of the file from \<open>position\<close>, at most \<open>length\<close> of them, overwrite the start of the buffer;
  the rest of the buffer is left as it was. Reading at or past the end of the file reads
  fewer bytes and is no error. The number of bytes read, which \<open>readSync\<close> returns, is
  dropped by every caller, so the model returns the buffer.
\<close>

definition readSync :: "byte list \<Rightarrow> byte list \<Rightarrow> nat \<Rightarrow> nat \<Rightarrow> byte list" where
  "readSync content buffer len position =
     (let got = take (min len (length buffer)) (drop position content)
      in got @ drop (length got) buffer)"

text \<open>
  Before it reads, \<open>fs.readSync\<close> checks its arguments and throws a \<open>RangeError\<close> for a
  length above \<open>2^31 - 1\<close> and for a position that is \<open>NaN\<close>, negative or above
  \<open>Number.MAX_SAFE_INTEGER\<close>. The call in \<open>isMachO\<close> has the length 4 and the position 0,
  which pass.
\<close>

definition MAX_SAFE_INTEGER :: int where
  "MAX_SAFE_INTEGER = 2 ^ 53 - 1"

definition readSyncArgs :: "nat \<Rightarrow> number \<Rightarrow> bool" where
  "readSyncArgs len position =
     (case position of
        None \<Rightarrow> False
      | Some p \<Rightarrow> int len \<le> 2 ^ 31 - 1 \<and> 0 \<le> p \<and> p \<le> MAX_SAFE_INTEGER)"

text \<open>\<open>buffer.readUInt32LE(0)\<close>: a \<open>RangeError\<close> on a buffer of fewer than 4 bytes.\<close>

fun readUInt32LE :: "byte list \<Rightarrow> nat option" where
  "readUInt32LE (b0 # b1 # b2 # b3 # rest) =
     Some (unat b0 + unat b1 * 2 ^ 8 + unat b2 * 2 ^ 16 + unat b3 * 2 ^ 24)"
| "readUInt32LE _ = None"

subsection \<open>isMachO\<close>

text \<open>Every exception inside the \<open>try\<close> block makes the function return \<open>false\<close>.\<close>

definition isMachO :: "world \<Rightarrow> string \<Rightarrow> bool" where
  "isMachO w filePath =
     (case files w filePath of
        None \<Rightarrow> False
      | Some content \<Rightarrow>
          (case Buffer_alloc (Some 4) of
             None \<Rightarrow> False
           | Some buffer0 \<Rightarrow>
               (case readUInt32LE (readSync content buffer0 4 0) of
                  None \<Rightarrow> False
                | Some magic \<Rightarrow>
                    magic = 0xFEEDFACE \<or> magic = 0xFEEDFACF \<or>
                    magic = 0xCAFEBABE \<or> magic = 0xBEBAFECA)))"

subsection \<open>hashFile\<close>

text \<open>\<open>fs.readFileSync\<close> throws on a file that cannot be read; nothing catches it here.\<close>

definition hashFile :: "world \<Rightarrow> string \<Rightarrow> error + string" where
  "hashFile w filePath =
     (case files w filePath of
        None \<Rightarrow> Inl (ReadFileFailed filePath)
      | Some content \<Rightarrow> Inr (sha256 w content))"

subsection \<open>parseInt\<close>

text \<open>
  \<open>parseInt(string, radix)\<close> of ECMAScript for a radix from 2 to 36: leading white space
  is dropped, then a sign, then (radix 16 only) a prefix \<open>0x\<close> or \<open>0X\<close>; the value is that of
  the longest run of digits of the radix that follows, and \<open>NaN\<close> when there is none.
  The digits are read exactly: JavaScript rounds a value above \<open>2^53\<close> to the nearest
  double; every such value is above \<open>kMaxLength\<close> and above \<open>MAX_SAFE_INTEGER\<close> with or
  without the rounding, and the rounding never makes a value 0.
\<close>

definition isWhiteSpace :: "char \<Rightarrow> bool" where
  "isWhiteSpace c = (c \<in> set [CHR '' '', CHR 0x09, CHR 0x0A, CHR 0x0B, CHR 0x0C, CHR 0x0D])"

definition digitValue :: "char \<Rightarrow> nat option" where
  "digitValue c =
     (let n = (of_char c :: nat)
      in if 48 \<le> n \<and> n \<le> 57 then Some (n - 48)
         else if 97 \<le> n \<and> n \<le> 122 then Some (n - 87)
         else if 65 \<le> n \<and> n \<le> 90 then Some (n - 55)
         else None)"

fun radixDigits :: "nat \<Rightarrow> string \<Rightarrow> nat list" where
  "radixDigits radix [] = []"
| "radixDigits radix (c # cs) =
     (case digitValue c of
        None \<Rightarrow> []
      | Some d \<Rightarrow> if d < radix then d # radixDigits radix cs else [])"

fun stripSign :: "string \<Rightarrow> int \<times> string" where
  "stripSign [] = (1, [])"
| "stripSign (c # cs) =
     (if c = CHR ''-'' then (-1, cs) else if c = CHR ''+'' then (1, cs) else (1, c # cs))"

fun stripHexPrefix :: "string \<Rightarrow> string" where
  "stripHexPrefix (c0 # c1 # cs) =
     (if c0 = CHR ''0'' \<and> (c1 = CHR ''x'' \<or> c1 = CHR ''X'') then cs else c0 # c1 # cs)"
| "stripHexPrefix cs = cs"

definition parseInt :: "string \<Rightarrow> nat \<Rightarrow> number" where
  "parseInt str radix =
     (let (sign, s1) = stripSign (dropWhile isWhiteSpace str);
          s2 = (if radix = 16 then stripHexPrefix s1 else s1);
          ds = radixDigits radix s2
      in if radix < 2 \<or> 36 < radix \<or> ds = [] then None
         else Some (sign * int (foldl (\<lambda>acc d. acc * radix + d) 0 ds)))"

subsection \<open>hashMachOSegments\<close>

text \<open>
  The \<open>while\<close> loop over the matches of \<open>sectionRegex\<close>: three \<open>continue\<close> tests, then the
  push onto \<open>sections\<close>.
\<close>

fun parseSections :: "sectionMatch list \<Rightarrow> machoSection list" where
  "parseSections [] = []"
| "parseSections (m # ms) =
     (let offset = parseInt (offsetStr m) 10;
          size = parseInt (sizeHex m) 16
      in if segname m = ''__LINKEDIT'' then parseSections ms
         else if offset = Some 0 then parseSections ms
         else if size = Some 0 then parseSections ms
         else \<lparr>sec_name = segname m @ ''.'' @ sectname m,
               sec_offset = offset, sec_size = size\<rparr> # parseSections ms)"

text \<open>
  The \<open>for\<close> loop that feeds each section to the hash. The state of the hash object is the
  list of bytes passed to \<open>hash.update\<close> so far; \<open>hash.digest('hex')\<close> is \<open>sha256\<close> of it.
  \<open>Buffer.alloc\<close> may throw, and so may \<open>fs.readSync\<close> when it checks the length
  \<open>section.size\<close> and the position \<open>section.offset\<close>. A read that ends at the end of the
  file throws nothing: the source does not look at the count \<open>readSync\<close> returns and
  passes the whole buffer to \<open>hash.update\<close>.
\<close>

fun hashSections :: "byte list \<Rightarrow> machoSection list \<Rightarrow> byte list \<Rightarrow> cause + byte list" where
  "hashSections content [] hash = Inr hash"
| "hashSections content (s # ss) hash =
     (case Buffer_alloc (sec_size s) of
        None \<Rightarrow> Inl AllocFailed
      | Some buffer0 \<Rightarrow>
          if \<not> readSyncArgs (length buffer0) (sec_offset s) then Inl ReadFailed
          else (case sec_offset s of
                  None \<Rightarrow> Inl ReadFailed
                | Some position \<Rightarrow>
                    hashSections content ss
                      (hash @ readSync content buffer0 (length buffer0) (nat position))))"

text \<open>
  The outer \<open>try\<close>/\<open>catch\<close> rethrows every exception as \<open>Failed to hash segments\<close>. The
  arguments \<open>tempDir\<close> and \<open>prefix\<close> are not used by the source either.
\<close>

definition hashMachOSegments :: "world \<Rightarrow> string \<Rightarrow> string \<Rightarrow> string \<Rightarrow> error + string" where
  "hashMachOSegments w filePath tempDir prefix =
     (case otool w filePath of
        None \<Rightarrow> Inl (FailedToHashSegments OtoolFailed)
      | Some ms \<Rightarrow>
          (let sections = parseSections ms
           in if length sections = 0 then Inl (FailedToHashSegments NoSectionsFound)
              else (case files w filePath of
                      None \<Rightarrow> Inl (FailedToHashSegments OpenFailed)
                    | Some content \<Rightarrow>
                        (case hashSections content sections [] of
                           Inl c \<Rightarrow> Inl (FailedToHashSegments c)
                         | Inr fed \<Rightarrow> Inr (sha256 w fed)))))"

subsection \<open>compareFiles\<close>

text \<open>
  The two calls of \<open>hashFile\<close> are outside the \<open>try\<close> block: their exception leaves
  \<open>compareFiles\<close>. An exception of \<open>hashMachOSegments\<close> is caught and falls through to
  \<open>'modified'\<close>.
\<close>

definition compareFiles ::
    "world \<Rightarrow> string \<Rightarrow> string \<Rightarrow> string \<Rightarrow> string \<Rightarrow> error + comparison" where
  "compareFiles w localPath originalPath relPath tempDir =
     (case hashFile w localPath of
        Inl e \<Rightarrow> Inl e
      | Inr localHash \<Rightarrow>
          (case hashFile w originalPath of
             Inl e \<Rightarrow> Inl e
           | Inr originalHash \<Rightarrow>
               if localHash = originalHash then Inr Match
               else if isMachO w localPath then
                 (case hashMachOSegments w localPath tempDir ''local'' of
                    Inl e \<Rightarrow> Inr Modified
                  | Inr localSegmentHash \<Rightarrow>
                      (case hashMachOSegments w originalPath tempDir ''original'' of
                         Inl e \<Rightarrow> Inr Modified
                       | Inr originalSegmentHash \<Rightarrow>
                           if localSegmentHash = originalSegmentHash then Inr SignatureOnly
                           else Inr Modified))
               else Inr Modified))"

subsection \<open>shouldSkipFile\<close>

definition SIGNATURE_PATTERNS :: "string list" where
  "SIGNATURE_PATTERNS =
     [''_CodeSignature'', ''.DS_Store'', ''CodeResources'', ''embedded.provisionprofile'']"

text \<open>\<open>String.prototype.includes\<close>: the pattern occurs at some position of the string.\<close>

fun str_includes :: "string \<Rightarrow> string \<Rightarrow> bool" where
  "str_includes [] pat = (pat = [])"
| "str_includes (c # cs) pat = (take (length pat) (c # cs) = pat \<or> str_includes cs pat)"

definition shouldSkipFile :: "string \<Rightarrow> bool" where
  "shouldSkipFile relPath = list_ex (\<lambda>pat. str_includes relPath pat) SIGNATURE_PATTERNS"

subsection \<open>getAllFiles\<close>

text \<open>
  \<open>path.join(currentDir, entry.name)\<close> and \<open>path.relative(baseDir, fullPath)\<close> on POSIX
  paths, for the arguments they get here: a directory path without a trailing slash and
  the name of one of its entries; a path and the path of a file below it.
\<close>

definition path_join :: "string \<Rightarrow> string \<Rightarrow> string" where
  "path_join dir name = dir @ ''/'' @ name"

definition path_relative :: "string \<Rightarrow> string \<Rightarrow> string" where
  "path_relative from to = drop (length from + 1) to"

fun walk :: "string \<Rightarrow> string \<Rightarrow> (string \<times> dirent) list \<Rightarrow> FileEntry list"
  and visit :: "string \<Rightarrow> string \<Rightarrow> dirent \<Rightarrow> FileEntry list" where
  "walk baseDir currentDir [] = []"
| "walk baseDir currentDir ((name, entry) # entries) =
     visit baseDir (path_join currentDir name) entry @ walk baseDir currentDir entries"
| "visit baseDir fullPath (Directory entries) = walk baseDir fullPath entries"
| "visit baseDir fullPath RegularFile =
     [\<lparr>absolutePath = fullPath, relativePath = path_relative baseDir fullPath\<rparr>]"
| "visit baseDir fullPath OtherEntry = []"

definition getAllFiles :: "world \<Rightarrow> string \<Rightarrow> string \<Rightarrow> FileEntry list" where
  "getAllFiles w dir baseDir = walk baseDir dir (readdir w dir)"

subsection \<open>compareApps\<close>

text \<open>
  \<open>new Set(list)\<close> keeps the first occurrence of each element, in insertion order;
  \<open>set.has(x)\<close> is membership.
\<close>

fun addAll :: "'a list \<Rightarrow> 'a list \<Rightarrow> 'a list" where
  "addAll acc [] = acc"
| "addAll acc (x # xs) = addAll (if x \<in> set acc then acc else acc @ [x]) xs"

definition newSet :: "'a list \<Rightarrow> 'a list" where
  "newSet xs = addAll [] xs"

text \<open>
  The first two \<open>for\<close> loops have one shape: walk a set, skip signature files, push the
  paths the other set lacks.
\<close>

fun missingFrom :: "string list \<Rightarrow> string list \<Rightarrow> string list \<Rightarrow> string list" where
  "missingFrom [] otherSet acc = acc"
| "missingFrom (relPath # rest) otherSet acc =
     (if shouldSkipFile relPath then missingFrom rest otherSet acc
      else if relPath \<notin> set otherSet then missingFrom rest otherSet (acc @ [relPath])
      else missingFrom rest otherSet acc)"

text \<open>
  The part of the third loop's body that classifies one local file: \<open>originalFiles.find\<close>
  and the call of \<open>compareFiles\<close>. Reading \<open>absolutePath\<close> of \<open>undefined\<close> would be a
  \<open>TypeError\<close>.
\<close>

definition classifyEntry ::
    "world \<Rightarrow> FileEntry list \<Rightarrow> string \<Rightarrow> FileEntry \<Rightarrow> error + comparison" where
  "classifyEntry w originalFiles tempDir localFile =
     (case List.find (\<lambda>f. relativePath f = relativePath localFile) originalFiles of
        None \<Rightarrow> Inl TypeError
      | Some originalFile \<Rightarrow>
          compareFiles w (absolutePath localFile) (absolutePath originalFile)
            (relativePath localFile) tempDir)"

text \<open>The third loop. An exception of \<open>compareFiles\<close> ends \<open>compareApps\<close>.\<close>

fun compareLoop ::
    "world \<Rightarrow> FileEntry list \<Rightarrow> string list \<Rightarrow> string \<Rightarrow> FileEntry list \<Rightarrow> report
      \<Rightarrow> error + report" where
  "compareLoop w originalFiles originalSet tempDir [] result = Inr result"
| "compareLoop w originalFiles originalSet tempDir (localFile # rest) result =
     (if shouldSkipFile (relativePath localFile)
      then compareLoop w originalFiles originalSet tempDir rest result
      else if relativePath localFile \<notin> set originalSet
      then compareLoop w originalFiles originalSet tempDir rest result
      else (case classifyEntry w originalFiles tempDir localFile of
              Inl e \<Rightarrow> Inl e
            | Inr cmp \<Rightarrow>
                compareLoop w originalFiles originalSet tempDir rest
                  (if cmp = Match then result\<lparr>matched := matched result + 1\<rparr>
                   else if cmp = SignatureOnly
                   then result\<lparr>signatureOnly := signatureOnly result @ [relativePath localFile]\<rparr>
                   else result\<lparr>modified := modified result @ [relativePath localFile]\<rparr>)))"

definition compareApps :: "world \<Rightarrow> string \<Rightarrow> string \<Rightarrow> string \<Rightarrow> error + report" where
  "compareApps w localApp originalApp tempDir =
     (let result0 = \<lparr>matched = 0, modified = [], signatureOnly = [],
                     missingInLocal = [], missingInOriginal = []\<rparr>;
          localFiles = getAllFiles w localApp localApp;
          originalFiles = getAllFiles w originalApp originalApp;
          localSet = newSet (map relativePath localFiles);
          originalSet = newSet (map relativePath originalFiles);
          result1 = result0\<lparr>missingInLocal := missingFrom originalSet localSet []\<rparr>;
          result2 = result1\<lparr>missingInOriginal := missingFrom localSet originalSet []\<rparr>
      in compareLoop w originalFiles originalSet tempDir localFiles result2)"

subsection \<open>The verdict of main\<close>

definition isValid :: "report \<Rightarrow> bool" where
  "isValid result = (length (modified result) = 0 \<and> length (missingInLocal result) = 0)"

text \<open>The argument of \<open>process.exit\<close> after the comparison.\<close>

definition exitCode :: "report \<Rightarrow> nat" where
  "exitCode result = (if isValid result then 0 else 1)"

section \<open>Notions used to state the properties\<close>

subsection \<open>Sections\<close>

text \<open>
  A match of the section table is comparable when it is outside the segment \<open>__LINKEDIT\<close>,
  its file offset is not 0 and its size is not 0.
\<close>

definition comparable :: "sectionMatch \<Rightarrow> bool" where
  "comparable m =
     (segname m \<noteq> ''__LINKEDIT'' \<and> parseInt (offsetStr m) 10 \<noteq> Some 0 \<and>
      parseInt (sizeHex m) 16 \<noteq> Some 0)"

definition toSection :: "sectionMatch \<Rightarrow> machoSection" where
  "toSection m =
     \<lparr>sec_name = segname m @ ''.'' @ sectname m,
      sec_offset = parseInt (offsetStr m) 10, sec_size = parseInt (sizeHex m) 16\<rparr>"

text \<open>
  The \<open>n\<close> bytes of a file from \<open>position\<close>, with a zero byte for every position at or
  past the end of the file.
\<close>

definition paddedRead :: "byte list \<Rightarrow> nat \<Rightarrow> nat \<Rightarrow> byte list" where
  "paddedRead content position n =
     take n (drop position content) @ replicate (n - (length content - position)) 0"

definition sectionContent :: "byte list \<Rightarrow> machoSection \<Rightarrow> byte list" where
  "sectionContent content s =
     (case (sec_offset s, sec_size s) of
        (Some position, Some n) \<Rightarrow> paddedRead content (nat position) (nat n)
      | _ \<Rightarrow> [])"

subsection \<open>Trees\<close>

text \<open>The relative paths of the regular files of the tree under a root, as enumerated.\<close>

definition relativePaths :: "world \<Rightarrow> string \<Rightarrow> string list" where
  "relativePaths w root = map relativePath (getAllFiles w root root)"

text \<open>Every regular file of both trees can be read.\<close>

definition readableTrees :: "world \<Rightarrow> string \<Rightarrow> string \<Rightarrow> bool" where
  "readableTrees w localApp originalApp =
     list_all (\<lambda>e. files w (absolutePath e) \<noteq> None)
       (getAllFiles w localApp localApp @ getAllFiles w originalApp originalApp)"

text \<open>
  The paths of the regular files below a directory, each written from the root of the
  walk: \<open>s\<close> is the path of the directory from that root.
\<close>

fun below :: "string \<Rightarrow> (string \<times> dirent) list \<Rightarrow> string list"
  and belowEntry :: "string \<Rightarrow> dirent \<Rightarrow> string list" where
  "below s [] = []"
| "below s ((name, entry) # entries) = belowEntry (s @ ''/'' @ name) entry @ below s entries"
| "belowEntry s (Directory entries) = below s entries"
| "belowEntry s RegularFile = [s]"
| "belowEntry s OtherEntry = []"

text \<open>
  A directory tree as a file system holds it: no entry name contains a slash, and the names
  within one directory differ.
\<close>

fun uniqueNames :: "(string \<times> dirent) list \<Rightarrow> bool"
  and uniqueIn :: "dirent \<Rightarrow> bool" where
  "uniqueNames [] = True"
| "uniqueNames ((name, entry) # entries) =
     (CHR ''/'' \<notin> set name \<and> name \<notin> fst ` set entries \<and> uniqueIn entry \<and>
      uniqueNames entries)"
| "uniqueIn (Directory entries) = uniqueNames entries"
| "uniqueIn RegularFile = True"
| "uniqueIn OtherEntry = True"

definition entryAt :: "string \<Rightarrow> string \<Rightarrow> FileEntry" where
  "entryAt base t = \<lparr>absolutePath = base @ t, relativePath = drop 1 t\<rparr>"

subsection \<open>The third loop of compareApps\<close>

text \<open>
  A local file reaches \<open>compareFiles\<close> when it is no signature file and the original tree
  has its relative path.
\<close>

definition eligible :: "string list \<Rightarrow> FileEntry \<Rightarrow> bool" where
  "eligible originalSet f =
     (\<not> shouldSkipFile (relativePath f) \<and> relativePath f \<in> set originalSet)"

definition classifiedAs ::
    "world \<Rightarrow> FileEntry list \<Rightarrow> string list \<Rightarrow> string \<Rightarrow> comparison \<Rightarrow> FileEntry \<Rightarrow> bool" where
  "classifiedAs w originalFiles originalSet tempDir c f =
     (eligible originalSet f \<and> classifyEntry w originalFiles tempDir f = Inr c)"

section \<open>An example run\<close>

text \<open>
  A local bundle \<open>/l\<close> and an original bundle \<open>/o\<close>: \<open>a.txt\<close> is the same in both, \<open>b.bin\<close>
  is an executable whose copies differ after the \<open>__text\<close> section only, \<open>c.txt\<close> exists in
  the original only, and the local bundle has a signature directory. \<open>/c\<close> is a copy of
  \<open>/l\<close>. \<open>/l/t.bin\<close> has 5 bytes and a section table that declares 4 bytes at offset 4;
  \<open>/o/t.bin\<close> has the same table and all 8 bytes, the last three of them 0;
  the table of \<open>/l/e.bin\<close> has a zero-fill section only. The stand-in for SHA-256 writes
  each byte as a character.
\<close>

definition exampleFiles :: "string \<Rightarrow> byte list option" where
  "exampleFiles p =
     (if p = ''/l/a.txt'' \<or> p = ''/o/a.txt'' \<or> p = ''/c/a.txt'' then Some [1, 2]
      else if p = ''/l/b.bin'' \<or> p = ''/c/b.bin'' then Some [0xCF, 0xFA, 0xED, 0xFE, 7, 9, 5]
      else if p = ''/o/b.bin'' then Some [0xCF, 0xFA, 0xED, 0xFE, 7, 9]
      else if p = ''/o/c.txt'' then Some [3]
      else if p = ''/l/_CodeSignature/CodeResources'' \<or> p = ''/c/_CodeSignature/CodeResources''
      then Some [4]
      else if p = ''/l/t.bin'' then Some [0xCF, 0xFA, 0xED, 0xFE, 7]
      else if p = ''/o/t.bin'' then Some [0xCF, 0xFA, 0xED, 0xFE, 7, 0, 0, 0]
      else None)"

definition exampleTable :: "sectionMatch list" where
  "exampleTable =
     [\<lparr>sectname = ''__text'', segname = ''__TEXT'', sizeHex = ''0x0000000000000002'',
       offsetStr = ''4''\<rparr>,
      \<lparr>sectname = ''__bss'', segname = ''__DATA'', sizeHex = ''0x0000000000000008'',
       offsetStr = ''0''\<rparr>,
      \<lparr>sectname = ''__empty'', segname = ''__DATA'', sizeHex = ''0x0000000000000000'',
       offsetStr = ''5''\<rparr>,
      \<lparr>sectname = ''__sig'', segname = ''__LINKEDIT'', sizeHex = ''0x0000000000000001'',
       offsetStr = ''6''\<rparr>]"

definition zerofillTable :: "sectionMatch list" where
  "zerofillTable =
     [\<lparr>sectname = ''__bss'', segname = ''__DATA'', sizeHex = ''0x0000000000000008'',
       offsetStr = ''0''\<rparr>]"

definition truncatedTable :: "sectionMatch list" where
  "truncatedTable =
     [\<lparr>sectname = ''__text'', segname = ''__TEXT'', sizeHex = ''0x0000000000000004'',
       offsetStr = ''4''\<rparr>]"

definition exampleLocalTree :: "(string \<times> dirent) list" where
  "exampleLocalTree =
     [(''a.txt'', RegularFile), (''b.bin'', RegularFile),
      (''_CodeSignature'', Directory [(''CodeResources'', RegularFile)])]"

definition exampleTree :: "string \<Rightarrow> (string \<times> dirent) list" where
  "exampleTree p =
     (if p = ''/l'' \<or> p = ''/c'' then exampleLocalTree
      else if p = ''/o'' then
        [(''a.txt'', RegularFile), (''b.bin'', RegularFile), (''c.txt'', RegularFile)]
      else [])"

definition exampleOtool :: "string \<Rightarrow> sectionMatch list option" where
  "exampleOtool p =
     (if p = ''/l/b.bin'' \<or> p = ''/o/b.bin'' then Some exampleTable
      else if p = ''/l/e.bin'' then Some zerofillTable
      else if p = ''/l/t.bin'' \<or> p = ''/o/t.bin'' then Some truncatedTable
      else None)"

definition exampleWorld :: world where
  "exampleWorld =
     \<lparr>sha256 = (\<lambda>bs. map (\<lambda>b. char_of (unat b)) bs),
      files = exampleFiles, readdir = exampleTree, otool = exampleOtool\<rparr>"

definition exampleReport :: report where
  "exampleReport =
     \<lparr>matched = 1, modified = [], signatureOnly = [''b.bin''],
      missingInLocal = [''c.txt''], missingInOriginal = []\<rparr>"

section \<open>Properties\<close>

subsection \<open>The verdict\<close>

text \<open>
  Claim C1. The run passes (exit code 0) exactly when the report has no modified file and
  no file missing in the local build; the lists \<open>signatureOnly\<close> and \<open>missingInOriginal\<close>
  and the count \<open>matched\<close> have no influence on the verdict.
\<close>

theorem verdict_pass_iff:
  "(exitCode result = 0 \<longleftrightarrow> missingInLocal result = [] \<and> modified result = []) \<and>
   isValid result = (exitCode result = 0) \<and>
   exitCode (result\<lparr>signatureOnly := so, missingInOriginal := mo, matched := m\<rparr>) =
     exitCode result"
  by (auto simp: exitCode_def isValid_def)

subsection \<open>Facts about the example\<close>

lemma example_files [simp]: "files exampleWorld = exampleFiles"
  and example_readdir [simp]: "readdir exampleWorld = exampleTree"
  and example_otool [simp]: "otool exampleWorld = exampleOtool"
  by (simp_all add: exampleWorld_def)

lemma Buffer_alloc_4: "Buffer_alloc (Some 4) = Some [0, 0, 0, 0]"
  by (simp add: Buffer_alloc_def kMaxLength_def numeral_eq_Suc)

lemma example_parse:
  "parseSections exampleTable =
     [\<lparr>sec_name = ''__TEXT.__text'', sec_offset = Some 4, sec_size = Some 2\<rparr>]"
  "parseSections zerofillTable = []"
  "parseSections truncatedTable =
     [\<lparr>sec_name = ''__TEXT.__text'', sec_offset = Some 4, sec_size = Some 4\<rparr>]"
  by (simp_all add: exampleTable_def zerofillTable_def truncatedTable_def parseInt_def
      isWhiteSpace_def digitValue_def Let_def)

lemma example_isMachO:
  "isMachO exampleWorld ''/l/b.bin''" "\<not> isMachO exampleWorld ''/l/a.txt''"
  by (simp_all add: isMachO_def exampleFiles_def Buffer_alloc_4 readSync_def)

lemma example_segments:
  "hashMachOSegments exampleWorld ''/l/b.bin'' t pre = Inr (sha256 exampleWorld [7, 9])"
  "hashMachOSegments exampleWorld ''/o/b.bin'' t pre = Inr (sha256 exampleWorld [7, 9])"
  by (simp_all add: hashMachOSegments_def exampleOtool_def exampleFiles_def example_parse
      Buffer_alloc_def kMaxLength_def readSyncArgs_def MAX_SAFE_INTEGER_def readSync_def
      numeral_eq_Suc)

lemma example_skip:
  "\<not> shouldSkipFile ''a.txt''" "\<not> shouldSkipFile ''b.bin''" "\<not> shouldSkipFile ''c.txt''"
  "shouldSkipFile ''_CodeSignature/CodeResources''"
  by (simp_all add: shouldSkipFile_def SIGNATURE_PATTERNS_def)

lemma example_trees:
  "getAllFiles exampleWorld ''/l'' ''/l'' =
     [\<lparr>absolutePath = ''/l/a.txt'', relativePath = ''a.txt''\<rparr>,
      \<lparr>absolutePath = ''/l/b.bin'', relativePath = ''b.bin''\<rparr>,
      \<lparr>absolutePath = ''/l/_CodeSignature/CodeResources'',
       relativePath = ''_CodeSignature/CodeResources''\<rparr>]"
  "getAllFiles exampleWorld ''/o'' ''/o'' =
     [\<lparr>absolutePath = ''/o/a.txt'', relativePath = ''a.txt''\<rparr>,
      \<lparr>absolutePath = ''/o/b.bin'', relativePath = ''b.bin''\<rparr>,
      \<lparr>absolutePath = ''/o/c.txt'', relativePath = ''c.txt''\<rparr>]"
  by (simp_all add: getAllFiles_def exampleTree_def exampleLocalTree_def path_join_def
      path_relative_def)

lemma example_hashFile:
  "hashFile exampleWorld ''/l/a.txt'' = Inr (sha256 exampleWorld [1, 2])"
  "hashFile exampleWorld ''/o/a.txt'' = Inr (sha256 exampleWorld [1, 2])"
  "hashFile exampleWorld ''/o/c.txt'' = Inr (sha256 exampleWorld [3])"
  "hashFile exampleWorld ''/l/b.bin'' =
     Inr (sha256 exampleWorld [0xCF, 0xFA, 0xED, 0xFE, 7, 9, 5])"
  "hashFile exampleWorld ''/o/b.bin'' =
     Inr (sha256 exampleWorld [0xCF, 0xFA, 0xED, 0xFE, 7, 9])"
  by (simp_all add: hashFile_def exampleFiles_def)

lemma example_digests_differ:
  "sha256 exampleWorld [1, 2] \<noteq> sha256 exampleWorld [3]"
  "sha256 exampleWorld [0xCF, 0xFA, 0xED, 0xFE, 7, 9, 5] \<noteq>
   sha256 exampleWorld [0xCF, 0xFA, 0xED, 0xFE, 7, 9]"
  by (simp_all add: exampleWorld_def)

lemma example_compareFiles:
  "compareFiles exampleWorld ''/l/a.txt'' ''/o/a.txt'' rel t = Inr Match"
  "compareFiles exampleWorld ''/l/b.bin'' ''/o/b.bin'' rel t = Inr SignatureOnly"
  by (simp_all add: compareFiles_def example_hashFile example_digests_differ example_isMachO
      example_segments)

lemma example_compareApps:
  "compareApps exampleWorld ''/l'' ''/o'' ''/t'' = Inr exampleReport"
  by (simp add: compareApps_def Let_def example_trees newSet_def example_skip classifyEntry_def
      example_compareFiles exampleReport_def)

subsection \<open>The format sniffer\<close>

lemma unat_byte_lt: "unat (b :: byte) < 256"
  using unsigned_less [of b, where 'a = nat] by simp

lemma magic_padded:
  "unat (b0::byte) + unat (b1::byte) * 2 ^ 8 + unat (b2::byte) * 2 ^ 16 < 2 ^ 24"
  using unat_byte_lt [of b0] unat_byte_lt [of b1] unat_byte_lt [of b2] by simp

lemma isMachO_content:
  assumes "files w p = Some c"
  shows "isMachO w p \<longleftrightarrow>
     (\<exists>b0 b1 b2 b3 rest. c = b0 # b1 # b2 # b3 # rest \<and>
        unat b0 + unat b1 * 2 ^ 8 + unat b2 * 2 ^ 16 + unat b3 * 2 ^ 24 \<in>
          {0xFEEDFACE, 0xFEEDFACF, 0xCAFEBABE, 0xBEBAFECA})"
proof (cases c rule: readUInt32LE.cases [case_names four none one two three])
  case (four b0 b1 b2 b3 rest)
  with assms show ?thesis
    by (simp add: isMachO_def Buffer_alloc_4 readSync_def)
next
  case none
  with assms show ?thesis
    by (simp add: isMachO_def Buffer_alloc_4 readSync_def)
next
  case (one b0)
  with assms magic_padded [of b0 0 0] show ?thesis
    by (simp add: isMachO_def Buffer_alloc_4 readSync_def)
next
  case (two b0 b1)
  with assms magic_padded [of b0 b1 0] show ?thesis
    by (simp add: isMachO_def Buffer_alloc_4 readSync_def)
next
  case (three b0 b1 b2)
  with assms magic_padded [of b0 b1 b2] show ?thesis
    by (simp add: isMachO_def Buffer_alloc_4 readSync_def)
qed

lemma isMachO_unreadable: "files w p = None \<Longrightarrow> \<not> isMachO w p"
  by (simp add: isMachO_def)

text \<open>
  Claim C6. \<open>isMachO\<close> is a total boolean function (no exception leaves it). It answers
  \<open>true\<close> exactly when the file can be read, has at least 4 bytes, and its first 4 bytes,
  read as a little-endian 32-bit number, are one of \<open>0xFEEDFACE\<close>, \<open>0xFEEDFACF\<close>,
  \<open>0xCAFEBABE\<close>, \<open>0xBEBAFECA\<close>. In particular it answers \<open>false\<close> for a file that cannot be
  read and for a file of fewer than 4 bytes.
\<close>

theorem isMachO_magic:
  "(isMachO w filePath \<longleftrightarrow>
      (\<exists>b0 b1 b2 b3 rest. files w filePath = Some (b0 # b1 # b2 # b3 # rest) \<and>
         unat b0 + unat b1 * 2 ^ 8 + unat b2 * 2 ^ 16 + unat b3 * 2 ^ 24 \<in>
           {0xFEEDFACE, 0xFEEDFACF, 0xCAFEBABE, 0xBEBAFECA})) \<and>
   (files w filePath = None \<longrightarrow> \<not> isMachO w filePath) \<and>
   (\<forall>content. files w filePath = Some content \<and> length content < 4 \<longrightarrow>
      \<not> isMachO w filePath)"
proof (cases "files w filePath")
  case None
  then show ?thesis by (simp add: isMachO_unreadable)
next
  case (Some c)
  from isMachO_content [OF Some] Some show ?thesis by auto
qed

theorem isMachO_magic_witness:
  "files exampleWorld ''/l/none'' = None \<and> \<not> isMachO exampleWorld ''/l/none'' \<and>
   files exampleWorld ''/o/c.txt'' = Some [3] \<and> length [3 :: byte] < 4 \<and>
   \<not> isMachO exampleWorld ''/o/c.txt'' \<and>
   files exampleWorld ''/o/b.bin'' = Some [0xCF, 0xFA, 0xED, 0xFE, 7, 9] \<and>
   isMachO exampleWorld ''/o/b.bin''"
proof -
  have n: "files exampleWorld ''/l/none'' = None" by (simp add: exampleFiles_def)
  have c: "files exampleWorld ''/o/c.txt'' = Some [3]" by (simp add: exampleFiles_def)
  have b: "files exampleWorld ''/o/b.bin'' = Some [0xCF, 0xFA, 0xED, 0xFE, 7, 9]"
    by (simp add: exampleFiles_def)
  from isMachO_magic [of exampleWorld "''/l/none''"] n
  have "\<not> isMachO exampleWorld ''/l/none''" by blast
  moreover from isMachO_magic [of exampleWorld "''/o/c.txt''"] c
  have "\<not> isMachO exampleWorld ''/o/c.txt''" by simp
  moreover from isMachO_magic [of exampleWorld "''/o/b.bin''"] b
  have "isMachO exampleWorld ''/o/b.bin''" by simp
  ultimately show ?thesis using n c b by simp
qed

subsection \<open>The file-pair classifier\<close>

lemma compareFiles_differ:
  assumes "hashFile w localPath = Inr localHash" "hashFile w originalPath = Inr originalHash"
    "localHash \<noteq> originalHash"
  shows "compareFiles w localPath originalPath relPath tempDir =
     Inr (if isMachO w localPath \<and>
            (\<exists>d. hashMachOSegments w localPath tempDir ''local'' = Inr d \<and>
                 hashMachOSegments w originalPath tempDir ''original'' = Inr d)
          then SignatureOnly else Modified)"
  using assms by (auto simp: compareFiles_def split: sum.splits)

text \<open>
  Claim C2. When both whole-file digests exist and differ and \<open>isMachO\<close> accepts the local
  file, \<open>compareFiles\<close> returns \<open>SignatureOnly\<close> if \<open>hashMachOSegments\<close> succeeds on both
  files with equal digests, and \<open>Modified\<close> in every other case: a failure on either file
  and a difference of the two digests both give \<open>Modified\<close>.
\<close>

theorem compareFiles_executable:
  assumes "hashFile w localPath = Inr localHash" "hashFile w originalPath = Inr originalHash"
    "localHash \<noteq> originalHash" "isMachO w localPath"
  shows "compareFiles w localPath originalPath relPath tempDir =
     Inr (if \<exists>d. hashMachOSegments w localPath tempDir ''local'' = Inr d \<and>
                 hashMachOSegments w originalPath tempDir ''original'' = Inr d
          then SignatureOnly else Modified)"
  using compareFiles_differ [OF assms(1-3)] assms(4) by simp

theorem compareFiles_executable_witness:
  "hashFile exampleWorld ''/l/b.bin'' =
     Inr (sha256 exampleWorld [0xCF, 0xFA, 0xED, 0xFE, 7, 9, 5]) \<and>
   hashFile exampleWorld ''/o/b.bin'' =
     Inr (sha256 exampleWorld [0xCF, 0xFA, 0xED, 0xFE, 7, 9]) \<and>
   sha256 exampleWorld [0xCF, 0xFA, 0xED, 0xFE, 7, 9, 5] \<noteq>
     sha256 exampleWorld [0xCF, 0xFA, 0xED, 0xFE, 7, 9] \<and>
   isMachO exampleWorld ''/l/b.bin'' \<and>
   compareFiles exampleWorld ''/l/b.bin'' ''/o/b.bin'' ''b.bin'' ''/t'' = Inr SignatureOnly \<and>
   compareFiles exampleWorld ''/l/b.bin'' ''/o/a.txt'' ''b.bin'' ''/t'' = Inr Modified"
proof -
  have a: "sha256 exampleWorld [0xCF, 0xFA, 0xED, 0xFE, 7, 9, 5] \<noteq> sha256 exampleWorld [1, 2]"
    by (simp add: exampleWorld_def)
  have f: "hashMachOSegments exampleWorld ''/o/a.txt'' ''/t'' ''original'' =
      Inl (FailedToHashSegments OtoolFailed)"
    by (simp add: hashMachOSegments_def exampleOtool_def)
  have "compareFiles exampleWorld ''/l/b.bin'' ''/o/b.bin'' ''b.bin'' ''/t'' = Inr SignatureOnly"
    using compareFiles_executable [OF example_hashFile(4) example_hashFile(5)
        example_digests_differ(2) example_isMachO(1), of "''b.bin''" "''/t''"]
    by (simp add: example_segments)
  moreover
  have "compareFiles exampleWorld ''/l/b.bin'' ''/o/a.txt'' ''b.bin'' ''/t'' = Inr Modified"
    using compareFiles_executable [OF example_hashFile(4) example_hashFile(2) a
        example_isMachO(1), of "''b.bin''" "''/t''"]
    by (simp add: example_segments f)
  ultimately show ?thesis
    using example_hashFile(4,5) example_digests_differ(2) example_isMachO(1) by simp
qed

text \<open>
  Claim C3. When both whole-file digests exist and differ and \<open>isMachO\<close> rejects the local
  file, \<open>compareFiles\<close> returns \<open>Modified\<close>.
\<close>

theorem compareFiles_not_executable:
  assumes "hashFile w localPath = Inr localHash" "hashFile w originalPath = Inr originalHash"
    "localHash \<noteq> originalHash" "\<not> isMachO w localPath"
  shows "compareFiles w localPath originalPath relPath tempDir = Inr Modified"
  using compareFiles_differ [OF assms(1-3)] assms(4) by simp

theorem compareFiles_not_executable_witness:
  "hashFile exampleWorld ''/l/a.txt'' = Inr (sha256 exampleWorld [1, 2]) \<and>
   hashFile exampleWorld ''/o/c.txt'' = Inr (sha256 exampleWorld [3]) \<and>
   sha256 exampleWorld [1, 2] \<noteq> sha256 exampleWorld [3] \<and>
   \<not> isMachO exampleWorld ''/l/a.txt'' \<and>
   compareFiles exampleWorld ''/l/a.txt'' ''/o/c.txt'' ''a.txt'' ''/t'' = Inr Modified"
  using compareFiles_not_executable [OF example_hashFile(1) example_hashFile(3)
      example_digests_differ(1) example_isMachO(2), of "''a.txt''" "''/t''"]
    example_hashFile(1,3) example_digests_differ(1) example_isMachO(2)
  by simp

subsection \<open>The section list\<close>

lemma parseSections_eq: "parseSections ms = map toSection (filter comparable ms)"
  by (induction ms) (simp_all add: comparable_def toSection_def Let_def)

text \<open>
  Claim C4. The list of sections that \<open>hashMachOSegments\<close> hashes is the section table
  filtered, in table order, to the comparable matches: none of them is in \<open>__LINKEDIT\<close>,
  none has offset 0 and none has size 0. When no match is comparable the function throws
  (\<open>No sections found\<close>) and returns no digest; otherwise the digest is computed from
  exactly that list.
\<close>

theorem comparable_sections:
  "parseSections ms = map toSection (filter comparable ms) \<and>
   (\<forall>m \<in> set (filter comparable ms). segname m \<noteq> ''__LINKEDIT'') \<and>
   (\<forall>s \<in> set (parseSections ms). sec_size s \<noteq> Some 0 \<and> sec_offset s \<noteq> Some 0) \<and>
   (otool w filePath = Some ms \<and> filter comparable ms = [] \<longrightarrow>
      hashMachOSegments w filePath tempDir prefix = Inl (FailedToHashSegments NoSectionsFound)) \<and>
   (otool w filePath = Some ms \<and> files w filePath = Some content \<and>
    filter comparable ms \<noteq> [] \<longrightarrow>
      hashMachOSegments w filePath tempDir prefix =
        (case hashSections content (map toSection (filter comparable ms)) [] of
           Inl c \<Rightarrow> Inl (FailedToHashSegments c)
         | Inr fed \<Rightarrow> Inr (sha256 w fed)))"
proof (intro conjI impI)
  show "parseSections ms = map toSection (filter comparable ms)"
    by (rule parseSections_eq)
  show "\<forall>m \<in> set (filter comparable ms). segname m \<noteq> ''__LINKEDIT''"
    by (simp add: comparable_def)
  show "\<forall>s \<in> set (parseSections ms). sec_size s \<noteq> Some 0 \<and> sec_offset s \<noteq> Some 0"
    by (auto simp: parseSections_eq toSection_def comparable_def)
next
  assume "otool w filePath = Some ms \<and> filter comparable ms = []"
  then show "hashMachOSegments w filePath tempDir prefix =
      Inl (FailedToHashSegments NoSectionsFound)"
    by (simp add: hashMachOSegments_def parseSections_eq)
next
  assume "otool w filePath = Some ms \<and> files w filePath = Some content \<and>
    filter comparable ms \<noteq> []"
  then show "hashMachOSegments w filePath tempDir prefix =
        (case hashSections content (map toSection (filter comparable ms)) [] of
           Inl c \<Rightarrow> Inl (FailedToHashSegments c)
         | Inr fed \<Rightarrow> Inr (sha256 w fed))"
    by (simp add: hashMachOSegments_def parseSections_eq)
qed

theorem comparable_sections_witness:
  "filter comparable exampleTable = [hd exampleTable] \<and>
   otool exampleWorld ''/l/e.bin'' = Some zerofillTable \<and>
   filter comparable zerofillTable = [] \<and>
   hashMachOSegments exampleWorld ''/l/e.bin'' ''/t'' ''local'' =
     Inl (FailedToHashSegments NoSectionsFound) \<and>
   otool exampleWorld ''/l/b.bin'' = Some exampleTable \<and>
   files exampleWorld ''/l/b.bin'' = Some [0xCF, 0xFA, 0xED, 0xFE, 7, 9, 5] \<and>
   hashMachOSegments exampleWorld ''/l/b.bin'' ''/t'' ''local'' = Inr (sha256 exampleWorld [7, 9])"
proof -
  have c1: "filter comparable exampleTable = [hd exampleTable]"
    by (simp add: exampleTable_def comparable_def parseInt_def isWhiteSpace_def digitValue_def)
  have c2: "filter comparable zerofillTable = []"
    by (simp add: zerofillTable_def comparable_def parseInt_def isWhiteSpace_def digitValue_def)
  have o1: "otool exampleWorld ''/l/e.bin'' = Some zerofillTable"
    by (simp add: exampleOtool_def)
  have o2: "otool exampleWorld ''/l/b.bin'' = Some exampleTable"
    by (simp add: exampleOtool_def)
  have f2: "files exampleWorld ''/l/b.bin'' = Some [0xCF, 0xFA, 0xED, 0xFE, 7, 9, 5]"
    by (simp add: exampleFiles_def)
  have t: "toSection (hd exampleTable) =
      \<lparr>sec_name = ''__TEXT.__text'', sec_offset = Some 4, sec_size = Some 2\<rparr>"
    by (simp add: exampleTable_def toSection_def parseInt_def isWhiteSpace_def digitValue_def)
  have "hashMachOSegments exampleWorld ''/l/e.bin'' ''/t'' ''local'' =
      Inl (FailedToHashSegments NoSectionsFound)"
    using comparable_sections [where ms = zerofillTable and w = exampleWorld and
        filePath = "''/l/e.bin''" and tempDir = "''/t''" and prefix = "''local''"]
      o1 c2 by blast
  moreover
  have "hashMachOSegments exampleWorld ''/l/b.bin'' ''/t'' ''local'' =
      (case hashSections [0xCF, 0xFA, 0xED, 0xFE, 7, 9, 5]
              (map toSection (filter comparable exampleTable)) [] of
         Inl c \<Rightarrow> Inl (FailedToHashSegments c)
       | Inr fed \<Rightarrow> Inr (sha256 exampleWorld fed))"
    using comparable_sections [where ms = exampleTable and w = exampleWorld and
        filePath = "''/l/b.bin''" and content = "[0xCF, 0xFA, 0xED, 0xFE, 7, 9, 5]" and
        tempDir = "''/t''" and prefix = "''local''"] o2 f2 c1
    by simp
  then have "hashMachOSegments exampleWorld ''/l/b.bin'' ''/t'' ''local'' =
      Inr (sha256 exampleWorld [7, 9])"
    by (simp add: c1 t Buffer_alloc_def kMaxLength_def readSyncArgs_def MAX_SAFE_INTEGER_def
        readSync_def numeral_eq_Suc)
  ultimately show ?thesis using c1 c2 o1 o2 f2 by simp
qed

subsection \<open>Sections that reach past the end of the file\<close>

lemma readSync_alloc:
  "readSync content (replicate n 0) n position = paddedRead content position n"
  by (auto simp: readSync_def paddedRead_def Let_def min_def)

text \<open>
  What the loop hashes when every size and offset passes the checks of \<open>Buffer.alloc\<close> and
  \<open>fs.readSync\<close>: the bytes of each section, with a zero byte for every declared position
  the file does not have.
\<close>

lemma hashSections_padded:
  assumes "\<forall>s \<in> set ss. \<exists>n pos. sec_size s = Some (int n) \<and> int n \<le> kMaxLength \<and>
             sec_offset s = Some (int pos) \<and> int pos \<le> MAX_SAFE_INTEGER"
  shows "hashSections content ss hash = Inr (hash @ concat (map (sectionContent content) ss))"
  using assms
proof (induction ss arbitrary: hash)
  case Nil
  then show ?case by simp
next
  case (Cons s ss)
  from Cons.prems obtain n pos where
    s: "sec_size s = Some (int n)" "int n \<le> kMaxLength" "sec_offset s = Some (int pos)"
      "int pos \<le> MAX_SAFE_INTEGER"
    by auto
  have rest: "\<forall>s \<in> set ss. \<exists>n pos. sec_size s = Some (int n) \<and> int n \<le> kMaxLength \<and>
      sec_offset s = Some (int pos) \<and> int pos \<le> MAX_SAFE_INTEGER"
    using Cons.prems by simp
  have args: "readSyncArgs n (Some (int pos))"
    using s(2,4) by (simp add: readSyncArgs_def kMaxLength_def)
  show ?case
    using s args
    by (simp add: Buffer_alloc_def Cons.IH [OF rest] readSync_alloc sectionContent_def)
qed


subsection \<open>Sets, loops and the walk\<close>

lemma set_addAll: "set (addAll acc xs) = set acc \<union> set xs"
  by (induction xs arbitrary: acc) auto

lemma distinct_addAll: "distinct acc \<Longrightarrow> distinct (addAll acc xs)"
  by (induction xs arbitrary: acc) auto

lemma set_newSet: "set (newSet xs) = set xs"
  by (simp add: newSet_def set_addAll)

lemma distinct_newSet: "distinct (newSet xs)"
  by (simp add: newSet_def distinct_addAll)

lemma missingFrom_filter:
  "missingFrom xs other acc =
     acc @ filter (\<lambda>p. \<not> shouldSkipFile p \<and> p \<notin> set other) xs"
  by (induction xs arbitrary: acc) auto

lemma compareLoop_result:
  "compareLoop w ofs oset t lfs r = Inr r' \<Longrightarrow>
     r' = r\<lparr>matched := matched r + length (filter (classifiedAs w ofs oset t Match) lfs),
            signatureOnly := signatureOnly r @
              map relativePath (filter (classifiedAs w ofs oset t SignatureOnly) lfs),
            modified := modified r @
              map relativePath (filter (classifiedAs w ofs oset t Modified) lfs)\<rparr>"
proof (induction lfs arbitrary: r)
  case Nil
  then show ?case by simp
next
  case (Cons f lfs)
  show ?case
  proof (cases "eligible oset f")
    case False
    then have "compareLoop w ofs oset t lfs r = Inr r'"
      using Cons.prems by (auto simp: eligible_def split: if_splits)
    from Cons.IH [OF this] False show ?thesis
      by (simp add: classifiedAs_def)
  next
    case True
    then obtain c where c: "classifyEntry w ofs t f = Inr c"
      using Cons.prems by (auto simp: eligible_def split: sum.splits)
    let ?r1 = "if c = Match then r\<lparr>matched := matched r + 1\<rparr>
               else if c = SignatureOnly
               then r\<lparr>signatureOnly := signatureOnly r @ [relativePath f]\<rparr>
               else r\<lparr>modified := modified r @ [relativePath f]\<rparr>"
    have "compareLoop w ofs oset t lfs ?r1 = Inr r'"
      using Cons.prems True c by (simp add: eligible_def)
    from Cons.IH [OF this] True c show ?thesis
      by (cases c) (simp_all add: classifiedAs_def)
  qed
qed

lemma compareLoop_classified:
  "compareLoop w ofs oset t lfs r = Inr r' \<Longrightarrow> f \<in> set lfs \<Longrightarrow> eligible oset f \<Longrightarrow>
     \<exists>c. classifyEntry w ofs t f = Inr c"
proof (induction lfs arbitrary: r)
  case Nil
  then show ?case by simp
next
  case (Cons g lfs)
  show ?case
  proof (cases "eligible oset g")
    case False
    then have "compareLoop w ofs oset t lfs r = Inr r'"
      using Cons.prems(1) by (auto simp: eligible_def split: if_splits)
    moreover have "f \<in> set lfs" using Cons.prems(2,3) False by auto
    ultimately show ?thesis using Cons.IH Cons.prems(3) by blast
  next
    case True
    then obtain c where c: "classifyEntry w ofs t g = Inr c"
      using Cons.prems(1) by (auto simp: eligible_def split: sum.splits)
    show ?thesis
    proof (cases "f = g")
      case True
      with c show ?thesis by blast
    next
      case False
      then have "f \<in> set lfs" using Cons.prems(2) by simp
      moreover have "\<exists>r1. compareLoop w ofs oset t lfs r1 = Inr r'"
        using Cons.prems(1) True c by (auto simp: eligible_def)
      ultimately show ?thesis using Cons.IH Cons.prems(3) by blast
    qed
  qed
qed

lemma compareLoop_returns:
  "\<forall>f \<in> set lfs. eligible oset f \<longrightarrow> (\<exists>c. classifyEntry w ofs t f = Inr c) \<Longrightarrow>
     \<exists>r'. compareLoop w ofs oset t lfs r = Inr r'"
proof (induction lfs arbitrary: r)
  case Nil
  then show ?case by simp
next
  case (Cons f lfs)
  then show ?case by (auto simp: eligible_def)
qed

lemma compareLoop_skip:
  "compareLoop w ofs oset t (filter (\<lambda>f. \<not> shouldSkipFile (relativePath f)) lfs) r =
   compareLoop w ofs oset t lfs r"
proof (induction lfs arbitrary: r)
  case Nil
  then show ?case by simp
next
  case (Cons f lfs)
  then show ?case by (simp split: sum.splits)
qed

lemma walk_below:
  "walk base (base @ s) entries = map (entryAt base) (below s entries)"
  "visit base (base @ s) entry = map (entryAt base) (belowEntry s entry)"
proof (induction s entries and s entry rule: below_belowEntry.induct)
  case (1 s)
  show ?case by simp
next
  case (2 s name entry entries)
  then show ?case by (simp add: path_join_def)
next
  case (3 s entries)
  then show ?case by simp
next
  case (4 s)
  show ?case by (simp add: entryAt_def path_relative_def)
next
  case (5 s)
  show ?case by simp
qed

lemma below_shape:
  "t \<in> set (below s entries) \<Longrightarrow>
     \<exists>name rest. name \<in> fst ` set entries \<and> t = s @ ''/'' @ name @ rest \<and>
       (rest = [] \<or> hd rest = CHR ''/'')"
  "t \<in> set (belowEntry s entry) \<Longrightarrow> \<exists>rest. t = s @ rest \<and> (rest = [] \<or> hd rest = CHR ''/'')"
proof (induction s entries and s entry arbitrary: t and t rule: below_belowEntry.induct)
  case (1 s)
  then show ?case by simp
next
  case (2 s name entry entries)
  from "2.prems" consider "t \<in> set (belowEntry (s @ ''/'' @ name) entry)" | "t \<in> set (below s entries)"
    by auto
  then show ?case
  proof cases
    case 1
    from "2.IH"(1) [OF 1] obtain rest where "t = (s @ ''/'' @ name) @ rest" "rest = [] \<or> hd rest = CHR ''/''"
      by blast
    then have "name \<in> fst ` set ((name, entry) # entries) \<and> t = s @ ''/'' @ name @ rest \<and>
        (rest = [] \<or> hd rest = CHR ''/'')"
      by simp
    then show ?thesis by blast
  next
    case 2
    from "2.IH"(2) [OF 2] obtain name' rest where
      "name' \<in> fst ` set entries" "t = s @ ''/'' @ name' @ rest" "rest = [] \<or> hd rest = CHR ''/''"
      by blast
    then have "name' \<in> fst ` set ((name, entry) # entries) \<and> t = s @ ''/'' @ name' @ rest \<and>
        (rest = [] \<or> hd rest = CHR ''/'')"
      by simp
    then show ?thesis by blast
  qed
next
  case (3 s entries)
  then have "t \<in> set (below s entries)" by simp
  from "3.IH" [OF this] obtain name rest where "t = s @ ''/'' @ name @ rest" by blast
  then have "t = s @ (''/'' @ name @ rest) \<and> hd (''/'' @ name @ rest) = CHR ''/''" by simp
  then show ?case by blast
next
  case (4 s)
  then show ?case by simp
next
  case (5 s)
  then show ?case by simp
qed

lemma first_component:
  "CHR ''/'' \<notin> set name \<Longrightarrow> rest = [] \<or> hd rest = CHR ''/'' \<Longrightarrow>
     takeWhile (\<lambda>c. c \<noteq> CHR ''/'') (name @ rest) = name"
proof (cases rest)
  case Nil
  assume "CHR ''/'' \<notin> set name"
  with Nil show ?thesis by (auto simp: takeWhile_eq_all_conv)
next
  case (Cons c cs)
  assume n: "CHR ''/'' \<notin> set name" and "rest = [] \<or> hd rest = CHR ''/''"
  with Cons have "c = CHR ''/''" by simp
  with Cons n show ?thesis by (auto simp: takeWhile_tail takeWhile_eq_all_conv)
qed

lemma uniqueNames_no_slash:
  "uniqueNames entries \<Longrightarrow> name \<in> fst ` set entries \<Longrightarrow> CHR ''/'' \<notin> set name"
proof (induction entries)
  case Nil
  then show ?case by simp
next
  case (Cons e entries)
  obtain n d where e: "e = (n, d)" by (cases e)
  show ?case
  proof (cases "name = n")
    case True
    with Cons.prems(1) e show ?thesis by simp
  next
    case False
    with Cons.prems e have "uniqueNames entries" "name \<in> fst ` set entries" by auto
    then show ?thesis by (rule Cons.IH)
  qed
qed

lemma below_distinct:
  "uniqueNames entries \<Longrightarrow> distinct (below s entries)"
  "uniqueIn entry \<Longrightarrow> distinct (belowEntry s entry)"
proof (induction s entries and s entry rule: below_belowEntry.induct)
  case (1 s)
  show ?case by simp
next
  case (2 s name entry entries)
  have d1: "distinct (belowEntry (s @ ''/'' @ name) entry)" using 2 by simp
  have d2: "distinct (below s entries)" using 2 by simp
  have "set (belowEntry (s @ ''/'' @ name) entry) \<inter> set (below s entries) = {}"
  proof (rule ccontr)
    assume "\<not> ?thesis"
    then obtain t where t1: "t \<in> set (belowEntry (s @ ''/'' @ name) entry)"
      and t2: "t \<in> set (below s entries)" by blast
    from below_shape(2) [OF t1] obtain rest where
      r1: "t = (s @ ''/'' @ name) @ rest" "rest = [] \<or> hd rest = CHR ''/''" by blast
    from below_shape(1) [OF t2] obtain name' rest' where
      r2: "name' \<in> fst ` set entries" "t = s @ ''/'' @ name' @ rest'"
        "rest' = [] \<or> hd rest' = CHR ''/''" by blast
    have n': "CHR ''/'' \<notin> set name'"
      using r2(1) "2.prems" uniqueNames_no_slash [of entries name'] by simp
    have n: "CHR ''/'' \<notin> set name" using "2.prems" by simp
    from r1(1) r2(2) have eq: "name @ rest = name' @ rest'" by simp
    have "name = takeWhile (\<lambda>c. c \<noteq> CHR ''/'') (name @ rest)"
      using first_component [OF n r1(2)] by simp
    also have "\<dots> = takeWhile (\<lambda>c. c \<noteq> CHR ''/'') (name' @ rest')"
      by (simp only: eq)
    also have "\<dots> = name'"
      using first_component [OF n' r2(3)] by simp
    finally have "name = name'" .
    then show False using r2(1) "2.prems" by simp
  qed
  with d1 d2 show ?case by simp
next
  case (3 s entries)
  then show ?case by simp
next
  case (4 s)
  show ?case by simp
next
  case (5 s)
  show ?case by simp
qed

lemma compareApps_result:
  assumes "compareApps w la oa t = Inr r"
  shows "r = \<lparr>matched = length (filter (classifiedAs w (getAllFiles w oa oa)
                   (newSet (relativePaths w oa)) t Match) (getAllFiles w la la)),
              modified = map relativePath (filter (classifiedAs w (getAllFiles w oa oa)
                   (newSet (relativePaths w oa)) t Modified) (getAllFiles w la la)),
              signatureOnly = map relativePath (filter (classifiedAs w (getAllFiles w oa oa)
                   (newSet (relativePaths w oa)) t SignatureOnly) (getAllFiles w la la)),
              missingInLocal = filter (\<lambda>p. \<not> shouldSkipFile p \<and> p \<notin> set (relativePaths w la))
                   (newSet (relativePaths w oa)),
              missingInOriginal = filter (\<lambda>p. \<not> shouldSkipFile p \<and> p \<notin> set (relativePaths w oa))
                   (newSet (relativePaths w la))\<rparr>"
  using compareLoop_result [OF assms [unfolded compareApps_def Let_def]]
  by (simp add: missingFrom_filter set_newSet relativePaths_def)

lemma hashFile_Inr: "(\<exists>h. hashFile w p = Inr h) \<longleftrightarrow> files w p \<noteq> None"
  by (auto simp: hashFile_def split: option.splits)

lemma compareFiles_returns:
  "files w a \<noteq> None \<Longrightarrow> files w b \<noteq> None \<Longrightarrow> \<exists>c. compareFiles w a b rel t = Inr c"
  by (auto simp: compareFiles_def hashFile_def split: option.splits sum.splits)

lemma classifyEntry_returns:
  assumes "relativePath f \<in> relativePath ` set ofs" "files w (absolutePath f) \<noteq> None"
    "\<forall>e \<in> set ofs. files w (absolutePath e) \<noteq> None"
  shows "\<exists>c. classifyEntry w ofs t f = Inr c"
proof -
  from assms(1) have "List.find (\<lambda>g. relativePath g = relativePath f) ofs \<noteq> None"
    by (auto simp: find_None_iff)
  then obtain g where g: "List.find (\<lambda>g. relativePath g = relativePath f) ofs = Some g"
    by blast
  then have "g \<in> set ofs" by (auto simp: find_Some_iff)
  with assms(3) have "files w (absolutePath g) \<noteq> None" by blast
  from compareFiles_returns [OF assms(2) this] g show ?thesis
    by (simp add: classifyEntry_def)
qed

lemma compareApps_returns:
  assumes "readableTrees w la oa"
  shows "\<exists>r. compareApps w la oa t = Inr r"
proof -
  let ?ofs = "getAllFiles w oa oa"
  let ?lfs = "getAllFiles w la la"
  have "\<forall>f \<in> set ?lfs. eligible (newSet (map relativePath ?ofs)) f \<longrightarrow>
          (\<exists>c. classifyEntry w ?ofs t f = Inr c)"
  proof (intro ballI impI)
    fix f assume f: "f \<in> set ?lfs" and e: "eligible (newSet (map relativePath ?ofs)) f"
    from e have "relativePath f \<in> relativePath ` set ?ofs"
      by (simp add: eligible_def set_newSet)
    moreover have "files w (absolutePath f) \<noteq> None"
      using assms f by (auto simp: readableTrees_def list_all_iff)
    moreover have "\<forall>e \<in> set ?ofs. files w (absolutePath e) \<noteq> None"
      using assms by (auto simp: readableTrees_def list_all_iff)
    ultimately show "\<exists>c. classifyEntry w ?ofs t f = Inr c"
      by (rule classifyEntry_returns)
  qed
  from compareLoop_returns [OF this] show ?thesis
    by (simp add: compareApps_def Let_def)
qed

lemma compareApps_classified:
  assumes "compareApps w la oa t = Inr r" "f \<in> set (getAllFiles w la la)"
    "eligible (newSet (relativePaths w oa)) f"
  shows "\<exists>c. classifyEntry w (getAllFiles w oa oa) t f = Inr c"
  using compareLoop_classified [OF assms(1) [unfolded compareApps_def Let_def] assms(2)] assms(3)
  by (simp add: relativePaths_def)

lemma length_filter_classes:
  assumes "\<forall>f \<in> set lfs. eligible oset f \<longrightarrow> (\<exists>c. classifyEntry w ofs t f = Inr c)"
  shows "length (filter (classifiedAs w ofs oset t Match) lfs) +
         length (filter (classifiedAs w ofs oset t SignatureOnly) lfs) +
         length (filter (classifiedAs w ofs oset t Modified) lfs) =
         length (filter (eligible oset) lfs)"
  using assms
proof (induction lfs)
  case Nil
  then show ?case by simp
next
  case (Cons f lfs)
  then have IH: "length (filter (classifiedAs w ofs oset t Match) lfs) +
         length (filter (classifiedAs w ofs oset t SignatureOnly) lfs) +
         length (filter (classifiedAs w ofs oset t Modified) lfs) =
         length (filter (eligible oset) lfs)" by simp
  show ?case
  proof (cases "eligible oset f")
    case False
    then have "\<And>c. \<not> classifiedAs w ofs oset t c f" by (simp add: classifiedAs_def)
    with False IH show ?thesis by simp
  next
    case True
    with Cons.prems obtain c where "classifyEntry w ofs t f = Inr c" by auto
    with True have "\<And>d. classifiedAs w ofs oset t d f = (d = c)"
      by (auto simp: classifiedAs_def)
    with True IH show ?thesis by (cases c) simp_all
  qed
qed

lemma getAllFiles_below:
  "getAllFiles w root root = map (entryAt root) (below [] (readdir w root))"
  using walk_below(1) [of root "[]"] by (simp add: getAllFiles_def)

lemma relativePaths_below:
  "relativePaths w root = map (drop 1) (below [] (readdir w root))"
  by (simp add: relativePaths_def getAllFiles_below entryAt_def comp_def)

lemma below_root_slash:
  assumes "t \<in> set (below [] entries)"
  shows "t = ''/'' @ drop 1 t"
proof -
  from below_shape(1) [OF assms] obtain name rest where "t = [] @ ''/'' @ name @ rest" by blast
  then show ?thesis by simp
qed

lemma relativePaths_distinct:
  assumes "uniqueNames (readdir w root)"
  shows "distinct (relativePaths w root)"
proof -
  have "inj_on (drop 1) (set (below [] (readdir w root)))"
  proof (rule inj_onI)
    fix s t assume "s \<in> set (below [] (readdir w root))" "t \<in> set (below [] (readdir w root))"
      "drop 1 s = drop 1 t"
    then show "s = t" using below_root_slash [of s] below_root_slash [of t] by metis
  qed
  with below_distinct(1) [OF assms, of "[]"] show ?thesis
    by (simp add: relativePaths_below distinct_map)
qed

lemma getAllFiles_absolute:
  assumes "g \<in> set (getAllFiles w root root)"
  shows "absolutePath g = path_join root (relativePath g)"
proof -
  from assms obtain t where t: "t \<in> set (below [] (readdir w root))" "g = entryAt root t"
    by (auto simp: getAllFiles_below)
  from below_root_slash [OF t(1)] have "root @ t = root @ ''/'' @ drop 1 t" by simp
  with t(2) show ?thesis by (simp add: entryAt_def path_join_def)
qed

lemma compareFiles_same_content:
  assumes "files w a = Some c" "files w b = Some c"
  shows "compareFiles w a b rel t = Inr Match"
  using assms by (simp add: compareFiles_def hashFile_def)

subsection \<open>The tree differ\<close>

text \<open>
  Claim C7. In every report of \<open>compareApps\<close>, \<open>missingInLocal\<close> holds exactly the relative
  paths of the original tree that the local tree lacks and that are no signature files,
  and \<open>missingInOriginal\<close> exactly the relative paths of the local tree that the original
  tree lacks and that are no signature files; neither list repeats a path.
\<close>

theorem missing_sets:
  assumes "compareApps w localApp originalApp tempDir = Inr r"
  shows "set (missingInLocal r) =
           {p \<in> set (relativePaths w originalApp) - set (relativePaths w localApp).
              \<not> shouldSkipFile p} \<and>
         set (missingInOriginal r) =
           {p \<in> set (relativePaths w localApp) - set (relativePaths w originalApp).
              \<not> shouldSkipFile p} \<and>
         distinct (missingInLocal r) \<and> distinct (missingInOriginal r)"
proof -
  note res = compareApps_result [OF assms]
  have "missingInLocal r = filter (\<lambda>p. \<not> shouldSkipFile p \<and> p \<notin> set (relativePaths w localApp))
                   (newSet (relativePaths w originalApp))"
    by (subst res) simp
  moreover have "missingInOriginal r = filter (\<lambda>p. \<not> shouldSkipFile p \<and> p \<notin> set (relativePaths w originalApp))
                   (newSet (relativePaths w localApp))"
    by (subst res) simp
  ultimately show ?thesis
    by (auto simp: set_newSet distinct_newSet)
qed

theorem missing_sets_witness:
  "compareApps exampleWorld ''/l'' ''/o'' ''/t'' = Inr exampleReport \<and>
   {p \<in> set (relativePaths exampleWorld ''/o'') - set (relativePaths exampleWorld ''/l'').
      \<not> shouldSkipFile p} = {''c.txt''} \<and>
   {p \<in> set (relativePaths exampleWorld ''/l'') - set (relativePaths exampleWorld ''/o'').
      \<not> shouldSkipFile p} = {}"
  using missing_sets [OF example_compareApps] example_compareApps
  by (simp add: exampleReport_def)

text \<open>
  Claim C8. In every report of \<open>compareApps\<close> no path of the four lists is a signature
  file; \<open>matched\<close> counts local files that are no signature files only; and the report is
  the one the third loop computes from the local files that are no signature files, so a
  signature file is never passed to \<open>compareFiles\<close>.
\<close>

theorem excluded_paths_unreported:
  assumes "compareApps w localApp originalApp tempDir = Inr r"
  shows "(\<forall>p \<in> set (modified r) \<union> set (signatureOnly r) \<union> set (missingInLocal r) \<union>
              set (missingInOriginal r). \<not> shouldSkipFile p) \<and>
         matched r =
           length (filter (\<lambda>f. \<not> shouldSkipFile (relativePath f) \<and>
                     relativePath f \<in> set (relativePaths w originalApp) \<and>
                     classifyEntry w (getAllFiles w originalApp originalApp) tempDir f = Inr Match)
                   (getAllFiles w localApp localApp)) \<and>
         compareLoop w (getAllFiles w originalApp originalApp)
             (newSet (relativePaths w originalApp)) tempDir
             (filter (\<lambda>f. \<not> shouldSkipFile (relativePath f)) (getAllFiles w localApp localApp))
             \<lparr>matched = 0, modified = [], signatureOnly = [],
              missingInLocal = missingInLocal r, missingInOriginal = missingInOriginal r\<rparr> = Inr r"
proof -
  note res = compareApps_result [OF assms]
  let ?ofs = "getAllFiles w originalApp originalApp"
  let ?oset = "newSet (relativePaths w originalApp)"
  let ?lfs = "getAllFiles w localApp localApp"
  have mo: "modified r = map relativePath (filter (classifiedAs w ?ofs ?oset tempDir Modified) ?lfs)"
    by (subst res) simp
  have so: "signatureOnly r = map relativePath (filter (classifiedAs w ?ofs ?oset tempDir SignatureOnly) ?lfs)"
    by (subst res) simp
  have ml: "missingInLocal r = filter (\<lambda>p. \<not> shouldSkipFile p \<and> p \<notin> set (relativePaths w localApp)) ?oset"
    by (subst res) simp
  have mi: "missingInOriginal r = filter (\<lambda>p. \<not> shouldSkipFile p \<and> p \<notin> set (relativePaths w originalApp))
                   (newSet (relativePaths w localApp))"
    by (subst res) simp
  have ma: "matched r = length (filter (classifiedAs w ?ofs ?oset tempDir Match) ?lfs)"
    by (subst res) simp
  have buckets: "\<forall>p \<in> set (modified r) \<union> set (signatureOnly r) \<union> set (missingInLocal r) \<union>
              set (missingInOriginal r). \<not> shouldSkipFile p"
    unfolding mo so ml mi by (auto simp: classifiedAs_def eligible_def)
  have cl: "classifiedAs w ?ofs ?oset tempDir Match =
      (\<lambda>f. \<not> shouldSkipFile (relativePath f) \<and>
                     relativePath f \<in> set (relativePaths w originalApp) \<and>
                     classifyEntry w ?ofs tempDir f = Inr Match)"
    by (auto simp: classifiedAs_def eligible_def set_newSet fun_eq_iff)
  have loop: "compareLoop w ?ofs ?oset tempDir (filter (\<lambda>f. \<not> shouldSkipFile (relativePath f)) ?lfs)
             \<lparr>matched = 0, modified = [], signatureOnly = [],
              missingInLocal = missingInLocal r, missingInOriginal = missingInOriginal r\<rparr> = Inr r"
    unfolding compareLoop_skip ml mi
    using assms by (simp add: compareApps_def Let_def missingFrom_filter relativePaths_def set_newSet)
  from buckets ma loop show ?thesis by (simp only: cl) 
qed

theorem excluded_paths_unreported_witness:
  "compareApps exampleWorld ''/l'' ''/o'' ''/t'' = Inr exampleReport \<and>
   shouldSkipFile ''_CodeSignature/CodeResources'' \<and>
   ''_CodeSignature/CodeResources'' \<in> set (relativePaths exampleWorld ''/l'') \<and>
   ''_CodeSignature/CodeResources'' \<notin>
     set (modified exampleReport) \<union> set (signatureOnly exampleReport) \<union>
     set (missingInLocal exampleReport) \<union> set (missingInOriginal exampleReport)"
proof -
  from excluded_paths_unreported [OF example_compareApps]
  have "\<forall>p \<in> set (modified exampleReport) \<union> set (signatureOnly exampleReport) \<union>
      set (missingInLocal exampleReport) \<union> set (missingInOriginal exampleReport).
      \<not> shouldSkipFile p"
    by (rule conjunct1)
  with example_skip(4) have "''_CodeSignature/CodeResources'' \<notin>
     set (modified exampleReport) \<union> set (signatureOnly exampleReport) \<union>
     set (missingInLocal exampleReport) \<union> set (missingInOriginal exampleReport)"
    by blast
  then show ?thesis
    using example_compareApps example_skip(4) by (simp add: relativePaths_def example_trees)
qed

text \<open>
  Claim C10. For a local tree as a file system holds it, \<open>compareApps\<close> returns a report
  whenever every file of the two trees can be read, and in every report it returns
  \<open>matched\<close> plus the lengths of \<open>signatureOnly\<close> and \<open>modified\<close> is the number of relative
  paths that both trees have and that are no signature files.
\<close>

theorem classification_partition:
  assumes "uniqueNames (readdir w localApp)"
  shows "(readableTrees w localApp originalApp \<longrightarrow>
            (\<exists>r. compareApps w localApp originalApp tempDir = Inr r)) \<and>
         (\<forall>r. compareApps w localApp originalApp tempDir = Inr r \<longrightarrow>
            matched r + length (signatureOnly r) + length (modified r) =
            card {p \<in> set (relativePaths w localApp) \<inter> set (relativePaths w originalApp).
                    \<not> shouldSkipFile p})"
proof (intro conjI allI impI)
  assume "readableTrees w localApp originalApp"
  then show "\<exists>r. compareApps w localApp originalApp tempDir = Inr r"
    by (rule compareApps_returns)
next
  fix r assume r: "compareApps w localApp originalApp tempDir = Inr r"
  note res = compareApps_result [OF r]
  let ?ofs = "getAllFiles w originalApp originalApp"
  let ?oset = "newSet (relativePaths w originalApp)"
  let ?lfs = "getAllFiles w localApp localApp"
  have mo: "modified r = map relativePath (filter (classifiedAs w ?ofs ?oset tempDir Modified) ?lfs)"
    by (subst res) simp
  have so: "signatureOnly r = map relativePath (filter (classifiedAs w ?ofs ?oset tempDir SignatureOnly) ?lfs)"
    by (subst res) simp
  have ma: "matched r = length (filter (classifiedAs w ?ofs ?oset tempDir Match) ?lfs)"
    by (subst res) simp
  have "\<forall>f \<in> set ?lfs. eligible ?oset f \<longrightarrow> (\<exists>c. classifyEntry w ?ofs tempDir f = Inr c)"
    using compareApps_classified [OF r] by blast
  from length_filter_classes [OF this]
  have total: "matched r + length (signatureOnly r) + length (modified r) =
      length (filter (eligible ?oset) ?lfs)"
    by (simp add: mo so ma)
  have d: "distinct (map relativePath ?lfs)"
    using relativePaths_distinct [OF assms] by (simp add: relativePaths_def)
  then have "distinct (map relativePath (filter (eligible ?oset) ?lfs))"
    by (simp add: distinct_map_filter)
  then have "length (filter (eligible ?oset) ?lfs) =
      card (set (map relativePath (filter (eligible ?oset) ?lfs)))"
    by (metis distinct_card length_map)
  also have "set (map relativePath (filter (eligible ?oset) ?lfs)) =
      {p \<in> set (relativePaths w localApp) \<inter> set (relativePaths w originalApp).
                    \<not> shouldSkipFile p}"
    by (auto simp: eligible_def set_newSet relativePaths_def)
  finally show "matched r + length (signatureOnly r) + length (modified r) =
            card {p \<in> set (relativePaths w localApp) \<inter> set (relativePaths w originalApp).
                    \<not> shouldSkipFile p}"
    using total by simp
qed

theorem classification_partition_witness:
  "uniqueNames (readdir exampleWorld ''/l'') \<and>
   readableTrees exampleWorld ''/l'' ''/o'' \<and>
   compareApps exampleWorld ''/l'' ''/o'' ''/t'' = Inr exampleReport \<and>
   matched exampleReport + length (signatureOnly exampleReport) +
     length (modified exampleReport) = 2 \<and>
   card {p \<in> set (relativePaths exampleWorld ''/l'') \<inter> set (relativePaths exampleWorld ''/o'').
           \<not> shouldSkipFile p} = 2"
proof -
  have u: "uniqueNames (readdir exampleWorld ''/l'')"
    by (simp add: exampleTree_def exampleLocalTree_def)
  have rd: "readableTrees exampleWorld ''/l'' ''/o''"
    by (simp add: readableTrees_def example_trees exampleFiles_def)
  have two: "matched exampleReport + length (signatureOnly exampleReport) +
     length (modified exampleReport) = 2"
    by (simp add: exampleReport_def)
  from classification_partition [OF u, of "''/o''" "''/t''"] example_compareApps
  have "matched exampleReport + length (signatureOnly exampleReport) +
      length (modified exampleReport) =
      card {p \<in> set (relativePaths exampleWorld ''/l'') \<inter>
                 set (relativePaths exampleWorld ''/o''). \<not> shouldSkipFile p}"
    by blast
  with two u rd example_compareApps show ?thesis by simp
qed

text \<open>
  Claim C9. When the original tree has the entries of the local tree and every file of
  the local tree can be read and has the content of the file at the same relative path of
  the original tree, \<open>compareApps\<close> returns the report with all four lists empty and
  \<open>matched\<close> equal to the number of files of the tree that are no signature files.
\<close>

theorem identical_trees:
  assumes same: "readdir w originalApp = readdir w localApp"
    and content: "\<forall>e \<in> set (getAllFiles w localApp localApp).
        \<exists>c. files w (absolutePath e) = Some c \<and>
            files w (path_join originalApp (relativePath e)) = Some c"
  shows "compareApps w localApp originalApp tempDir =
     Inr \<lparr>matched = length (filter (\<lambda>e. \<not> shouldSkipFile (relativePath e))
                               (getAllFiles w localApp localApp)),
          modified = [], signatureOnly = [], missingInLocal = [], missingInOriginal = []\<rparr>"
proof -
  let ?ofs = "getAllFiles w originalApp originalApp"
  let ?oset = "newSet (relativePaths w originalApp)"
  let ?lfs = "getAllFiles w localApp localApp"
  have rp: "relativePaths w originalApp = relativePaths w localApp"
    by (simp add: relativePaths_below same)
  have cls: "classifyEntry w ?ofs tempDir f = Inr Match" if f: "f \<in> set ?lfs" for f
  proof -
    have "relativePath f \<in> set (relativePaths w localApp)"
      using f by (simp add: relativePaths_def)
    then have "relativePath f \<in> set (relativePaths w originalApp)"
      by (simp only: rp)
    then have "List.find (\<lambda>g. relativePath g = relativePath f) ?ofs \<noteq> None"
      by (auto simp: find_None_iff relativePaths_def)
    then obtain g where g: "List.find (\<lambda>g. relativePath g = relativePath f) ?ofs = Some g"
      by blast
    then have "g \<in> set ?ofs" "relativePath g = relativePath f"
      by (auto simp: find_Some_iff)
    then have ag: "absolutePath g = path_join originalApp (relativePath f)"
      using getAllFiles_absolute [of g w originalApp] by simp
    from content f obtain c where "files w (absolutePath f) = Some c"
      "files w (path_join originalApp (relativePath f)) = Some c" by blast
    then have "compareFiles w (absolutePath f) (absolutePath g) (relativePath f) tempDir = Inr Match"
      unfolding ag by (rule compareFiles_same_content)
    with g show ?thesis by (simp add: classifyEntry_def)
  qed
  have el: "eligible ?oset f = (\<not> shouldSkipFile (relativePath f))" if f: "f \<in> set ?lfs" for f
  proof -
    have "relativePath f \<in> set (relativePaths w localApp)"
      using f by (simp add: relativePaths_def)
    then show ?thesis by (simp add: eligible_def set_newSet rp)
  qed
  have "\<forall>f \<in> set ?lfs. eligible ?oset f \<longrightarrow> (\<exists>c. classifyEntry w ?ofs tempDir f = Inr c)"
    using cls by blast
  from compareLoop_returns [OF this]
  obtain r where r: "compareApps w localApp originalApp tempDir = Inr r"
    unfolding compareApps_def Let_def relativePaths_def by blast
  note res = compareApps_result [OF r]
  have m: "filter (classifiedAs w ?ofs ?oset tempDir Match) ?lfs =
      filter (\<lambda>e. \<not> shouldSkipFile (relativePath e)) ?lfs"
    by (rule filter_cong) (simp_all add: classifiedAs_def cls el)
  have mo: "filter (classifiedAs w ?ofs ?oset tempDir Modified) ?lfs = []"
    by (simp add: filter_empty_conv classifiedAs_def cls)
  have so: "filter (classifiedAs w ?ofs ?oset tempDir SignatureOnly) ?lfs = []"
    by (simp add: filter_empty_conv classifiedAs_def cls)
  have ml: "filter (\<lambda>p. \<not> shouldSkipFile p \<and> p \<notin> set (relativePaths w localApp)) ?oset = []"
    by (simp add: filter_empty_conv set_newSet rp)
  have mi: "filter (\<lambda>p. \<not> shouldSkipFile p \<and> p \<notin> set (relativePaths w originalApp))
      (newSet (relativePaths w localApp)) = []"
    by (simp add: filter_empty_conv set_newSet rp)
  show ?thesis
    unfolding r by (subst res) (simp only: m mo so ml mi list.map)
qed

theorem identical_trees_witness:
  "readdir exampleWorld ''/c'' = readdir exampleWorld ''/l'' \<and>
   length (getAllFiles exampleWorld ''/l'' ''/l'') = 3 \<and>
   compareApps exampleWorld ''/l'' ''/c'' ''/t'' =
     Inr \<lparr>matched = 2, modified = [], signatureOnly = [], missingInLocal = [],
          missingInOriginal = []\<rparr>"
proof -
  have same: "readdir exampleWorld ''/c'' = readdir exampleWorld ''/l''"
    by (simp add: exampleTree_def)
  have content: "\<forall>e \<in> set (getAllFiles exampleWorld ''/l'' ''/l'').
      \<exists>c. files exampleWorld (absolutePath e) = Some c \<and>
          files exampleWorld (path_join ''/c'' (relativePath e)) = Some c"
    by (simp add: example_trees exampleFiles_def path_join_def)
  from identical_trees [OF same content, of "''/t''"] same show ?thesis
    by (simp add: example_trees example_skip)
qed

end
